theory Spec2Isabelle
  imports
    Main
    "HOL-Library.Sublist"
    "HOL-Library.Multiset"
    "HOL-Library.Char_ord"
    "HOL-Library.List_Lexorder"
begin

section \<open>JavaScript strings and arrays\<close>

text \<open>
  A JavaScript string is a sequence of UTF-16 code units. The model uses \<^typ>\<open>string\<close>,
  one \<^typ>\<open>char\<close> per code unit, which covers the code units below 256 (ASCII and
  Latin-1). On that range \<open>toLowerCase\<close> maps \<open>A\<close>-\<open>Z\<close> and the upper-case Latin-1
  letters (0xC0-0xDE without the multiplication sign 0xD7) to the letter 32 places
  further on and leaves every other code unit alone.
\<close>

definition toLowerCase_char :: "char \<Rightarrow> char" where
  "toLowerCase_char c =
     (let n = (of_char c :: nat) in
      if (65 \<le> n \<and> n \<le> 90) \<or> (192 \<le> n \<and> n \<le> 222 \<and> n \<noteq> 215)
      then char_of (n + 32) else c)"

definition toLowerCase :: "string \<Rightarrow> string" where
  "toLowerCase s = map toLowerCase_char s"

text \<open>\<open>s.includes(t)\<close>: \<open>t\<close> occurs in \<open>s\<close> as a contiguous run.\<close>

definition str_includes :: "string \<Rightarrow> string \<Rightarrow> bool" where
  "str_includes s t = sublist t s"

text \<open>\<open>s.startsWith(p)\<close>.\<close>

definition startsWith :: "string \<Rightarrow> string \<Rightarrow> bool" where
  "startsWith s p = prefix p s"

text \<open>
  \<open>s.split(c)\<close> for a one-character separator: the pieces between the separators, in
  order; the empty string gives one empty piece.
\<close>

fun split_js :: "char \<Rightarrow> string \<Rightarrow> string list" where
  "split_js c [] = [[]]"
| "split_js c (x # xs) =
     (if x = c then [] # split_js c xs
      else (case split_js c xs of
              [] \<Rightarrow> [[x]]
            | t # ts \<Rightarrow> (x # t) # ts))"

text \<open>
  \<open>s.trim()\<close> removes white space and line terminators from both ends. Below 256 these
  are TAB, LF, VT, FF, CR, SPACE and the no-break space 0xA0.
\<close>

definition isWhiteSpace :: "char \<Rightarrow> bool" where
  "isWhiteSpace c = ((of_char c :: nat) \<in> {9, 10, 11, 12, 13, 32, 160})"

definition trim :: "string \<Rightarrow> string" where
  "trim s = rev (dropWhile isWhiteSpace (rev (dropWhile isWhiteSpace s)))"

text \<open>
  \<open>[...new Set(xs)]\<close>: the values of \<open>xs\<close> in the order of their first occurrence, each
  once. A \<open>Set\<close> ignores the insertion of a value it already holds.
\<close>

definition Set_values :: "'a list \<Rightarrow> 'a list" where
  "Set_values xs = fold (\<lambda>x acc. if x \<in> set acc then acc else acc @ [x]) xs []"

text \<open>
  \<open>xs.sort(compareFn)\<close>. The sort of ECMAScript is stable, and for a consistent
  comparison function its result is the one stable arrangement in which no element
  compares greater than a later one. Insertion from the right computes that
  arrangement: an element goes in front of the first element it does not compare
  greater than.
\<close>

fun sort_insert :: "('a \<Rightarrow> 'a \<Rightarrow> int) \<Rightarrow> 'a \<Rightarrow> 'a list \<Rightarrow> 'a list" where
  "sort_insert compareFn x [] = [x]"
| "sort_insert compareFn x (y # ys) =
     (if compareFn x y \<le> 0 then x # y # ys else y # sort_insert compareFn x ys)"

fun Array_sort :: "('a \<Rightarrow> 'a \<Rightarrow> int) \<Rightarrow> 'a list \<Rightarrow> 'a list" where
  "Array_sort compareFn [] = []"
| "Array_sort compareFn (x # xs) = sort_insert compareFn x (Array_sort compareFn xs)"

text \<open>
  \<open>a.localeCompare(b)\<close> is the collation of the host's locale data, which the
  repository does not fix. It is a parameter of the model: negative when \<open>a\<close> sorts
  before \<open>b\<close>, zero when they collate equal, positive otherwise.
\<close>

type_synonym localeCompare = "string \<Rightarrow> string \<Rightarrow> int"

text \<open>
  The comparison by code units, which is also the order of \<open>xs.sort()\<close> without a
  comparison function. It is one possible collation.
\<close>

definition codeUnitCompare :: localeCompare where
  "codeUnitCompare a b = (if a < b then - 1 else if a = b then 0 else 1)"

text \<open>
  The collation of the host ignores some code units, among them the soft hyphen
  (U+00AD): two strings that differ only in soft hyphens collate equal. This
  collation has that one feature: it compares by code units once the soft hyphens are
  left out.
\<close>

definition softHyphenCompare :: localeCompare where
  "softHyphenCompare a b =
     codeUnitCompare (filter (\<lambda>c. c \<noteq> CHR 0xAD) a) (filter (\<lambda>c. c \<noteq> CHR 0xAD) b)"

section \<open>Node's \<open>path\<close> module (POSIX)\<close>

text \<open>
  \<open>path.parse(p).name\<close>. Node scans \<open>p\<close> from the right: it drops trailing slashes,
  takes the characters back to the previous slash as the last component, and looks
  for the last dot in it. The component is returned whole when it has no dot, when
  its only dot is its first character, or when it is \<open>..\<close>; otherwise the part in front
  of the last dot is returned. The first character of an absolute path is not scanned,
  and there the \<open>..\<close> exception applies only when a further slash was met.
\<close>

definition path_parse_name :: "string \<Rightarrow> string" where
  "path_parse_name p =
     (if p = [] then []
      else
        let isAbsolute = (hd p = CHR ''/'');
            body = (if isAbsolute then tl p else p);
            r = dropWhile (\<lambda>c. c = CHR ''/'') (rev body);
            base = rev (takeWhile (\<lambda>c. c \<noteq> CHR ''/'') r);
            sawSlash = (dropWhile (\<lambda>c. c \<noteq> CHR ''/'') r \<noteq> []);
            stem = rev (tl (dropWhile (\<lambda>c. c \<noteq> CHR ''.'') (rev base)))
        in if CHR ''.'' \<notin> set base then base
           else if stem = [] then base
           else if base = ''..'' \<and> (sawSlash \<or> \<not> isAbsolute) then base
           else stem)"

section \<open>The search engine (\<open>app/api/search-icons/route.ts\<close>)\<close>

record IconFile =
  name :: string
  path :: string
  relativePath :: string
  directory :: string
  size_f :: "nat option"
  lastModified :: "int option"
  depth :: int

record SearchResult =
  icons :: "IconFile list"
  directories :: "string list"

text \<open>The candidate match targets built for one record inside the filter callback.\<close>

definition searchTargets :: "IconFile \<Rightarrow> string list" where
  "searchTargets file =
     (let fileName = toLowerCase (name file);
          fileNameWithoutExt = path_parse_name fileName;
          directoryName = toLowerCase (directory file);
          relativePath' = toLowerCase (relativePath file)
      in [fileName, fileNameWithoutExt, directoryName, relativePath']
         @ split_js CHR ''-'' fileNameWithoutExt
         @ split_js CHR ''/'' directoryName
         @ split_js CHR ''/'' relativePath')"

text \<open>The filter callback: \<open>searchTargets.some(target => target.includes(searchTermLower))\<close>.\<close>

definition matchesSearch :: "string \<Rightarrow> IconFile \<Rightarrow> bool" where
  "matchesSearch searchTermLower file =
     list_ex (\<lambda>target. str_includes target searchTermLower) (searchTargets file)"

text \<open>
  \<open>getRelevanceScore\<close>, with the assignments to \<open>score\<close> in the order of the source.
\<close>

definition getRelevanceScore :: "string \<Rightarrow> IconFile \<Rightarrow> int" where
  "getRelevanceScore searchTermLower file =
     (let score0 = 0;
          fileName = toLowerCase (name file);
          fileNameWithoutExt = path_parse_name fileName;
          directory' = toLowerCase (directory file);
          score1 = (if fileName = searchTermLower \<or> fileNameWithoutExt = searchTermLower
                    then score0 + 100 else score0);
          score2 = (if startsWith fileName searchTermLower
                       \<or> startsWith fileNameWithoutExt searchTermLower
                    then score1 + 50 else score1);
          score3 = (if str_includes directory' searchTermLower then score2 + 25 else score2);
          score4 = (if str_includes fileName searchTermLower then score3 + 10 else score3);
          score5 = score4 - depth file
      in score5)"

text \<open>The comparison function of the relevance sort.\<close>

definition compareRelevance :: "localeCompare \<Rightarrow> string \<Rightarrow> IconFile \<Rightarrow> IconFile \<Rightarrow> int" where
  "compareRelevance lc searchTermLower a b =
     (let aName = toLowerCase (name a);
          bName = toLowerCase (name b);
          aDir = toLowerCase (directory a);
          bDir = toLowerCase (directory b);
          scoreA = getRelevanceScore searchTermLower a;
          scoreB = getRelevanceScore searchTermLower b
      in if scoreA \<noteq> scoreB then scoreB - scoreA
         else if aDir \<noteq> bDir then lc aDir bDir
         else lc aName bName)"

text \<open>The comparison function of the empty-query sort: directory first, then name.\<close>

definition compareDirectoryName :: "localeCompare \<Rightarrow> IconFile \<Rightarrow> IconFile \<Rightarrow> int" where
  "compareDirectoryName lc a b =
     (if directory a \<noteq> directory b then lc (directory a) (directory b)
      else lc (name a) (name b))"

text \<open>
  The body of \<open>searchIconFiles\<close> from the point where \<open>allFiles\<close> is known. The optional
  \<open>filterDir\<close> is tested for truthiness, so an empty string counts as absent.
\<close>

definition searchRecords ::
  "localeCompare \<Rightarrow> IconFile list \<Rightarrow> string \<Rightarrow> string option \<Rightarrow> SearchResult" where
  "searchRecords lc allFiles searchTerm filterDir =
     (let filteredFiles =
            (case filterDir of
               None \<Rightarrow> allFiles
             | Some d \<Rightarrow> if d \<noteq> [] then filter (\<lambda>file. directory file = d) allFiles
                         else allFiles);
          directories' = sort (Set_values (map directory allFiles))
      in if trim searchTerm = []
         then \<lparr>icons = Array_sort (compareDirectoryName lc) filteredFiles,
               directories = directories'\<rparr>
         else
           let searchTermLower = toLowerCase searchTerm;
               matchingFiles = filter (matchesSearch searchTermLower) filteredFiles;
               sortedFiles = Array_sort (compareRelevance lc searchTermLower) matchingFiles
           in \<lparr>icons = sortedFiles, directories = directories'\<rparr>)"

text \<open>
  The second version of the route reads a precomputed snapshot \<open>app/icons.json\<close>
  instead of walking the file system. \<open>readFile\<close> followed by \<open>JSON.parse\<close> either
  throws (\<open>None\<close>) or gives the record list. Its relevance comparison breaks ties on
  the directory and name as stored, not lower-cased.
\<close>

definition compareRelevance_json ::
  "localeCompare \<Rightarrow> string \<Rightarrow> IconFile \<Rightarrow> IconFile \<Rightarrow> int" where
  "compareRelevance_json lc searchTermLower a b =
     (let scoreA = getRelevanceScore searchTermLower a;
          scoreB = getRelevanceScore searchTermLower b
      in if scoreA \<noteq> scoreB then scoreB - scoreA
         else if directory a \<noteq> directory b then lc (directory a) (directory b)
         else lc (name a) (name b))"

definition searchIconFiles_json ::
  "localeCompare \<Rightarrow> IconFile list option \<Rightarrow> string \<Rightarrow> string option \<Rightarrow> SearchResult" where
  "searchIconFiles_json lc snapshot searchTerm filterDir =
     (case snapshot of
        None \<Rightarrow> \<lparr>icons = [], directories = []\<rparr>
      | Some allFiles \<Rightarrow>
          let filteredFiles =
                (case filterDir of
                   None \<Rightarrow> allFiles
                 | Some d \<Rightarrow> if d \<noteq> [] then filter (\<lambda>file. directory file = d) allFiles
                             else allFiles);
              directories' = sort (Set_values (map directory allFiles))
          in if trim searchTerm = []
             then \<lparr>icons = Array_sort (compareDirectoryName lc) filteredFiles,
                   directories = directories'\<rparr>
             else
               let searchTermLower = toLowerCase searchTerm;
                   matchingFiles = filter (matchesSearch searchTermLower) filteredFiles;
                   sortedFiles =
                     Array_sort (compareRelevance_json lc searchTermLower) matchingFiles
               in \<lparr>icons = sortedFiles, directories = directories'\<rparr>)"

section \<open>The indexers\<close>

text \<open>
  The directory tree below the indexed root, as \<open>fs.readdir\<close> with \<open>withFileTypes\<close> and
  \<open>fs.stat\<close> show it. A directory carries the result of reading it and a file the
  result of \<open>stat\<close>; \<open>None\<close> is a call that throws. \<open>OtherEntry\<close> is an entry that is
  neither a directory nor a regular file (a socket, a dangling link).
\<close>

record Stats =
  st_size :: nat
  st_mtime :: int

datatype Dirent =
    DirectoryEntry string "Dirent list option"
  | FileEntry string "Stats option"
  | OtherEntry string "Stats option"

text \<open>
  Paths below the root are kept as the list of entry names leading to them, so that
  \<open>path.relative(baseDir, path.join(dirPath, entry.name))\<close> is the names of \<open>dirPath\<close>
  below \<open>baseDir\<close> and the entry's name, joined by the separator. This is what Node
  returns for the names \<open>readdir\<close> yields (not empty, no slash, neither \<open>.\<close> nor \<open>..\<close>).
\<close>

fun path_join_names :: "string list \<Rightarrow> string" where
  "path_join_names [] = []"
| "path_join_names [x] = x"
| "path_join_names (x # y # zs) = x @ ''/'' @ path_join_names (y # zs)"

definition path_relative_entry :: "string list \<Rightarrow> string \<Rightarrow> string" where
  "path_relative_entry dirPath entryName = path_join_names (dirPath @ [entryName])"

text \<open>
  \<open>path.dirname(p)\<close>: trailing slashes are passed over, then the text in front of the
  last remaining slash is returned; index 0 is not scanned. Without such a slash the
  result is \<open>/\<close> for an absolute path and \<open>.\<close> otherwise.
\<close>

definition path_dirname :: "string \<Rightarrow> string" where
  "path_dirname p =
     (if p = [] then ''.''
      else
        let hasRoot = (hd p = CHR ''/'');
            r = dropWhile (\<lambda>c. c = CHR ''/'') (rev (tl p));
            rest = dropWhile (\<lambda>c. c \<noteq> CHR ''/'') r;
            end' = length rest
        in if rest = [] then (if hasRoot then ''/'' else ''.'')
           else if hasRoot \<and> end' = 1 then ''//''
           else take end' p)"

text \<open>
  \<open>path.extname(p)\<close>: the last component from its last dot on, and the empty string
  under the three conditions that make \<open>path.parse\<close> return the component whole.
\<close>

definition path_extname :: "string \<Rightarrow> string" where
  "path_extname p =
     (let r = dropWhile (\<lambda>c. c = CHR ''/'') (rev p);
          base = rev (takeWhile (\<lambda>c. c \<noteq> CHR ''/'') r);
          stem = rev (tl (dropWhile (\<lambda>c. c \<noteq> CHR ''.'') (rev base)))
      in if CHR ''.'' \<notin> set base \<or> stem = [] \<or> base = ''..'' then []
         else drop (length stem) base)"

text \<open>\<open>s.replace(/\\/g, "/")\<close>: every backslash (code unit 0x5C) becomes a slash.\<close>

definition replace_backslashes :: "string \<Rightarrow> string" where
  "replace_backslashes s = map (\<lambda>c. if c = CHR 0x5C then CHR ''/'' else c) s"

text \<open>\<open>s.replace(/^public\//, "/")\<close>.\<close>

definition replace_public_prefix :: "string \<Rightarrow> string" where
  "replace_public_prefix s = (if prefix ''public/'' s then ''/'' @ drop 7 s else s)"

definition supportedFormats :: "string list" where
  "supportedFormats = [''.svg'', ''.png'', ''.jpg'', ''.jpeg'', ''.gif'', ''.webp'', ''.ico'']"

text \<open>
  The record pushed by \<open>getAllFilesRecursively\<close> for a regular file with a supported
  extension whose \<open>stat\<close> succeeded.
\<close>

definition fileRecord :: "string list \<Rightarrow> string \<Rightarrow> Stats \<Rightarrow> int \<Rightarrow> IconFile" where
  "fileRecord dirPath entryName stats currentDepth =
     (let relativePath' = path_relative_entry dirPath entryName;
          directory' = path_dirname relativePath';
          publicUrlPath = replace_public_prefix relativePath'
      in \<lparr>name = entryName,
          path = replace_backslashes publicUrlPath,
          relativePath = replace_backslashes relativePath',
          directory = (if directory' = ''.'' then ''root''
                       else replace_backslashes directory'),
          size_f = Some (st_size stats),
          lastModified = Some (st_mtime stats),
          depth = currentDepth\<rparr>)"

text \<open>
  \<open>getAllFilesRecursively\<close> of \<open>route.ts\<close>. The first argument is what \<open>readdir\<close> gives
  for \<open>dirPath\<close>; the second function is the loop over the entries. A failing \<open>readdir\<close>
  or \<open>stat\<close> is caught and logged, and the walk goes on.
\<close>

fun getAllFilesRecursively :: "Dirent list option \<Rightarrow> string list \<Rightarrow> int \<Rightarrow> int \<Rightarrow> IconFile list"
  and getAllFilesRecursively_loop :: "Dirent list \<Rightarrow> string list \<Rightarrow> int \<Rightarrow> int \<Rightarrow> IconFile list"
where
  "getAllFilesRecursively readdir dirPath currentDepth maxDepth =
     (if currentDepth > maxDepth then []
      else (case readdir of
              None \<Rightarrow> []
            | Some entries \<Rightarrow> getAllFilesRecursively_loop entries dirPath currentDepth maxDepth))"
| "getAllFilesRecursively_loop [] dirPath currentDepth maxDepth = []"
| "getAllFilesRecursively_loop (DirectoryEntry entryName sub # entries) dirPath currentDepth maxDepth =
     (if startsWith entryName ''.'' \<or> entryName = ''node_modules'' then []
      else getAllFilesRecursively sub (dirPath @ [entryName]) (currentDepth + 1) maxDepth)
     @ getAllFilesRecursively_loop entries dirPath currentDepth maxDepth"
| "getAllFilesRecursively_loop (FileEntry entryName st # entries) dirPath currentDepth maxDepth =
     (if toLowerCase (path_extname entryName) \<in> set supportedFormats
      then (case st of
              None \<Rightarrow> []
            | Some stats \<Rightarrow> [fileRecord dirPath entryName stats currentDepth])
      else [])
     @ getAllFilesRecursively_loop entries dirPath currentDepth maxDepth"
| "getAllFilesRecursively_loop (OtherEntry entryName st # entries) dirPath currentDepth maxDepth =
     getAllFilesRecursively_loop entries dirPath currentDepth maxDepth"

text \<open>
  \<open>searchIconFiles\<close> of \<open>route.ts\<close>. The file system maps the directory asked for to
  \<open>None\<close> when \<open>fs.access\<close> throws, and to the result of reading it otherwise.
\<close>

definition searchIconFiles ::
  "localeCompare \<Rightarrow> (string \<Rightarrow> Dirent list option option) \<Rightarrow> string \<Rightarrow> string \<Rightarrow> string option
     \<Rightarrow> SearchResult" where
  "searchIconFiles lc fs searchTerm directory' filterDir =
     (case fs directory' of
        None \<Rightarrow> \<lparr>icons = [], directories = []\<rparr>
      | Some readdir \<Rightarrow>
          let allFiles = getAllFilesRecursively readdir [] 0 10
          in searchRecords lc allFiles searchTerm filterDir)"

text \<open>
  The record pushed by \<open>getAllIconFiles\<close> of \<open>scripts/generate-icons-json.js\<close>. There
  \<open>relativePath\<close> is normalised before it is used.
\<close>

definition iconRecord :: "string list \<Rightarrow> string \<Rightarrow> Stats \<Rightarrow> int \<Rightarrow> IconFile" where
  "iconRecord dirPath entryName stats depth' =
     (let relativePath' = replace_backslashes (path_relative_entry dirPath entryName);
          dirname' = replace_backslashes (path_dirname relativePath')
      in \<lparr>name = entryName,
          path = ''/icons/'' @ relativePath',
          relativePath = relativePath',
          directory = (if dirname' = [] then ''root'' else dirname'),
          size_f = Some (st_size stats),
          lastModified = Some (st_mtime stats),
          depth = depth'\<rparr>)"

text \<open>
  \<open>getAllIconFiles\<close> of the script. Nothing is caught: a failing \<open>readdir\<close> or \<open>stat\<close>
  ends the run (\<open>None\<close>). Every entry that is not a directory is treated as a file.
\<close>

fun getAllIconFiles :: "Dirent list option \<Rightarrow> string list \<Rightarrow> int \<Rightarrow> int \<Rightarrow> IconFile list option"
  and getAllIconFiles_loop :: "Dirent list \<Rightarrow> string list \<Rightarrow> int \<Rightarrow> int \<Rightarrow> IconFile list option"
where
  "getAllIconFiles readdir dirPath depth' maxDepth =
     (if depth' > maxDepth then Some []
      else (case readdir of
              None \<Rightarrow> None
            | Some entries \<Rightarrow> getAllIconFiles_loop entries dirPath depth' maxDepth))"
| "getAllIconFiles_loop [] dirPath depth' maxDepth = Some []"
| "getAllIconFiles_loop (DirectoryEntry entryName sub # entries) dirPath depth' maxDepth =
     (case getAllIconFiles sub (dirPath @ [entryName]) (depth' + 1) maxDepth of
        None \<Rightarrow> None
      | Some subFiles \<Rightarrow>
          (case getAllIconFiles_loop entries dirPath depth' maxDepth of
             None \<Rightarrow> None
           | Some files \<Rightarrow> Some (subFiles @ files)))"
| "getAllIconFiles_loop (FileEntry entryName st # entries) dirPath depth' maxDepth =
     (if toLowerCase (path_extname entryName) \<notin> set supportedFormats
      then getAllIconFiles_loop entries dirPath depth' maxDepth
      else (case st of
              None \<Rightarrow> None
            | Some stats \<Rightarrow>
                (case getAllIconFiles_loop entries dirPath depth' maxDepth of
                   None \<Rightarrow> None
                 | Some files \<Rightarrow> Some (iconRecord dirPath entryName stats depth' # files))))"
| "getAllIconFiles_loop (OtherEntry entryName st # entries) dirPath depth' maxDepth =
     (if toLowerCase (path_extname entryName) \<notin> set supportedFormats
      then getAllIconFiles_loop entries dirPath depth' maxDepth
      else (case st of
              None \<Rightarrow> None
            | Some stats \<Rightarrow>
                (case getAllIconFiles_loop entries dirPath depth' maxDepth of
                   None \<Rightarrow> None
                 | Some files \<Rightarrow> Some (iconRecord dirPath entryName stats depth' # files))))"

section \<open>Notions of the specification\<close>

text \<open>
  The simpler match predicate: the query occurs in the lower-cased file name, directory
  or relative path.
\<close>

definition matchesThreeFields :: "string \<Rightarrow> IconFile \<Rightarrow> bool" where
  "matchesThreeFields searchTermLower file =
     (str_includes (toLowerCase (name file)) searchTermLower
      \<or> str_includes (toLowerCase (directory file)) searchTermLower
      \<or> str_includes (toLowerCase (relativePath file)) searchTermLower)"

text \<open>
  An exact match: the lower-cased file name, or that name without its extension, is the
  lower-cased query.
\<close>

definition isExactMatch :: "string \<Rightarrow> IconFile \<Rightarrow> bool" where
  "isExactMatch searchTermLower file =
     (toLowerCase (name file) = searchTermLower
      \<or> path_parse_name (toLowerCase (name file)) = searchTermLower)"

text \<open>
  The scoped set: the records of the filter's directory when a filter is given (a
  string that is not empty), all records otherwise.
\<close>

definition scopedSet :: "IconFile list \<Rightarrow> string option \<Rightarrow> IconFile list" where
  "scopedSet allFiles filterDir =
     (case filterDir of
        None \<Rightarrow> allFiles
      | Some d \<Rightarrow> if d = [] then allFiles else filter (\<lambda>file. directory file = d) allFiles)"

text \<open>
  Ascending by directory, then by name: the order the empty-query branch is to
  establish between an earlier and a later record.
\<close>

definition directoryThenName :: "localeCompare \<Rightarrow> IconFile \<Rightarrow> IconFile \<Rightarrow> bool" where
  "directoryThenName lc a b =
     (lc (directory a) (directory b) \<le> 0
      \<and> (directory a = directory b \<longrightarrow> lc (name a) (name b) \<le> 0))"

text \<open>The number of path separators in a normalised relative path.\<close>

definition separatorCount :: "string \<Rightarrow> int" where
  "separatorCount s = int (length (filter (\<lambda>c. c = CHR ''/'') s))"

text \<open>
  Entry names without a slash and without a backslash, throughout a tree. POSIX allows a
  backslash in a name; the normalisation of the indexers would turn it into a separator.
\<close>

definition plainName :: "string \<Rightarrow> bool" where
  "plainName entryName = (CHR ''/'' \<notin> set entryName \<and> CHR 0x5C \<notin> set entryName)"

fun plainNames :: "Dirent \<Rightarrow> bool" where
  "plainNames (DirectoryEntry entryName sub) =
     (plainName entryName \<and> (case sub of None \<Rightarrow> True | Some entries \<Rightarrow> list_all plainNames entries))"
| "plainNames (FileEntry entryName st) = plainName entryName"
| "plainNames (OtherEntry entryName st) = plainName entryName"

text \<open>The directories the walk of \<open>route.ts\<close> does not enter.\<close>

definition skippedDirectory :: "string \<Rightarrow> bool" where
  "skippedDirectory entryName = (startsWith entryName ''.'' \<or> entryName = ''node_modules'')"

section \<open>Sample inputs\<close>

definition sampleStats :: Stats where
  "sampleStats = \<lparr>st_size = 1024, st_mtime = 0\<rparr>"

definition lambda_svg :: IconFile where
  "lambda_svg = \<lparr>name = ''lambda.svg'', path = ''lambda.svg'', relativePath = ''lambda.svg'',
     directory = ''root'', size_f = Some 1024, lastModified = Some 0, depth = 0\<rparr>"

definition lambda_function_svg :: IconFile where
  "lambda_function_svg = \<lparr>name = ''lambda-function.svg'', path = ''compute/lambda-function.svg'',
     relativePath = ''compute/lambda-function.svg'', directory = ''compute'',
     size_f = Some 1024, lastModified = Some 0, depth = 1\<rparr>"

definition aws_lambda_arch_png :: IconFile where
  "aws_lambda_arch_png = \<lparr>name = ''aws-lambda-arch.png'',
     path = ''compute/diagrams/aws-lambda-arch.png'',
     relativePath = ''compute/diagrams/aws-lambda-arch.png'', directory = ''compute/diagrams'',
     size_f = Some 1024, lastModified = Some 0, depth = 2\<rparr>"

text \<open>
  A snapshot with an exact name 101 directories down, as an indexer run with a larger
  \<open>maxDepth\<close> records it, and a prefix match directly under the root.
\<close>

definition deepDirectory :: string where
  "deepDirectory = path_join_names (replicate 101 ''a'')"

definition deep_ec2_svg :: IconFile where
  "deep_ec2_svg = \<lparr>name = ''ec2.svg'', path = ''/icons/'' @ deepDirectory @ ''/ec2.svg'',
     relativePath = deepDirectory @ ''/ec2.svg'', directory = deepDirectory,
     size_f = Some 1024, lastModified = Some 0, depth = 101\<rparr>"

definition ec2_instance_svg :: IconFile where
  "ec2_instance_svg = \<lparr>name = ''ec2-instance.svg'', path = ''/icons/ec2-instance.svg'',
     relativePath = ''ec2-instance.svg'', directory = ''root'',
     size_f = Some 1024, lastModified = Some 0, depth = 0\<rparr>"

definition rootFileTree :: "Dirent list" where
  "rootFileTree = [FileEntry ''ec2.svg'' (Some sampleStats)]"

definition nestedTree :: "Dirent list" where
  "nestedTree =
     [FileEntry ''ec2.svg'' (Some sampleStats),
      DirectoryEntry ''compute'' (Some [FileEntry ''lambda.svg'' (Some sampleStats)])]"

definition hiddenDirTree :: "Dirent list" where
  "hiddenDirTree =
     [DirectoryEntry ''.git'' (Some [FileEntry ''logo.png'' (Some sampleStats)]),
      DirectoryEntry ''node_modules'' (Some [FileEntry ''badge.svg'' (Some sampleStats)])]"

text \<open>
  A root that holds \<open>z.svg\<close>, a directory named \<open>root\<close> with a soft hyphen in the middle
  that holds \<open>m.svg\<close>, and \<open>a.svg\<close>, in the order \<open>readdir\<close> lists them.
\<close>

definition softHyphenTree :: "Dirent list" where
  "softHyphenTree =
     [FileEntry ''z.svg'' (Some sampleStats),
      DirectoryEntry (''ro'' @ [CHR 0xAD] @ ''ot'') (Some [FileEntry ''m.svg'' (Some sampleStats)]),
      FileEntry ''a.svg'' (Some sampleStats)]"

definition softHyphenFileSystem :: "string \<Rightarrow> Dirent list option option" where
  "softHyphenFileSystem d = Some (Some softHyphenTree)"

definition noFileSystem :: "string \<Rightarrow> Dirent list option option" where
  "noFileSystem d = None"

section \<open>Sorting with a comparison function\<close>

lemma mset_sort_insert: "mset (sort_insert c x xs) = add_mset x (mset xs)"
  by (induction xs) auto

lemma mset_Array_sort: "mset (Array_sort c xs) = mset xs"
  by (induction xs) (auto simp: mset_sort_insert)

lemma set_Array_sort: "set (Array_sort c xs) = set xs"
  using mset_Array_sort [of c xs] by (metis set_mset_mset)

lemma set_sort_insert: "set (sort_insert c x xs) = insert x (set xs)"
  by (induction xs) auto

lemma sorted_wrt_sort_insert:
  assumes tr: "transp R"
    and le: "\<And>y. c x y \<le> 0 \<Longrightarrow> R x y"
    and gt: "\<And>y. \<not> c x y \<le> 0 \<Longrightarrow> R y x"
    and srt: "sorted_wrt R xs"
  shows "sorted_wrt R (sort_insert c x xs)"
  using srt
proof (induction xs)
  case Nil
  show ?case by simp
next
  case (Cons y ys)
  show ?case
  proof (cases "c x y \<le> 0")
    case True
    have xy: "R x y" using le True by blast
    have "\<forall>z\<in>set ys. R x z"
      using Cons.prems xy tr by (auto dest: transpD)
    with xy Cons.prems True show ?thesis by simp
  next
    case False
    have yx: "R y x" using gt False by blast
    from Cons.prems have "sorted_wrt R ys" by simp
    then have "sorted_wrt R (sort_insert c x ys)" by (rule Cons.IH)
    with yx Cons.prems False show ?thesis by (simp add: set_sort_insert)
  qed
qed

lemma sorted_wrt_Array_sort:
  assumes tr: "transp R"
    and le: "\<And>x y. c x y \<le> 0 \<Longrightarrow> R x y"
    and gt: "\<And>x y. \<not> c x y \<le> 0 \<Longrightarrow> R y x"
  shows "sorted_wrt R (Array_sort c xs)"
proof (induction xs)
  case Nil
  show ?case by simp
next
  case (Cons x xs)
  have "sorted_wrt R (sort_insert c x (Array_sort c xs))"
    using tr le gt Cons.IH by (rule sorted_wrt_sort_insert)
  then show ?case by simp
qed

lemma sublist_chain: "sublist a b \<Longrightarrow> sublist b c \<Longrightarrow> sublist a c"
  by (rule sublist_order.order_trans)

lemma path_parse_name_sublist: "sublist (path_parse_name p) p"
proof (cases "p = []")
  case True
  then show ?thesis by (simp add: path_parse_name_def)
next
  case False
  define body where "body = (if hd p = CHR ''/'' then tl p else p)"
  define r where "r = dropWhile (\<lambda>c. c = CHR ''/'') (rev body)"
  define base where "base = rev (takeWhile (\<lambda>c. c \<noteq> CHR ''/'') r)"
  define stem where "stem = rev (tl (dropWhile (\<lambda>c. c \<noteq> CHR ''.'') (rev base)))"
  have b: "sublist body p" by (simp add: body_def)
  have "sublist (rev base) (rev body)"
    unfolding base_def r_def rev_rev_ident
    by (rule sublist_chain [OF sublist_takeWhile sublist_dropWhile])
  then have bb: "sublist base body" by simp
  have "sublist (rev stem) (rev base)"
    unfolding stem_def rev_rev_ident
    by (rule sublist_chain [OF sublist_tl sublist_dropWhile])
  then have sb: "sublist stem base" by simp
  have 1: "sublist base p" using bb b by (rule sublist_chain)
  have 2: "sublist stem p" using sb 1 by (rule sublist_chain)
  have "path_parse_name p =
          (if CHR ''.'' \<notin> set base then base
           else if stem = [] then base
           else if base = ''..'' \<and> (dropWhile (\<lambda>c. c \<noteq> CHR ''/'') r \<noteq> [] \<or> hd p \<noteq> CHR ''/'') then base
           else stem)"
    using False
    unfolding path_parse_name_def Let_def body_def r_def base_def stem_def
    by (simp only: if_False)
  moreover have "\<And>a b c. (if a then base else if b then base else if c then base else stem)
                   \<in> {base, stem}"
    by simp
  ultimately have "path_parse_name p \<in> {base, stem}"
    by (simp only:)
  with 1 2 show ?thesis by auto
qed

lemma split_js_nonempty: "split_js c s \<noteq> []"
  by (induction s) (auto split: list.splits)

lemma split_js_hd_prefix: "split_js c s = u # us \<Longrightarrow> prefix u s"
  by (induction s arbitrary: u us) (auto split: if_splits list.splits)

lemma split_js_sublist: "t \<in> set (split_js c s) \<Longrightarrow> sublist t s"
proof (induction s arbitrary: t)
  case Nil
  then show ?case by simp
next
  case (Cons x xs)
  show ?case
  proof (cases "x = c")
    case True
    with Cons.prems have "t = [] \<or> t \<in> set (split_js c xs)" by auto
    then show ?thesis
    proof
      assume "t = []" then show ?thesis by simp
    next
      assume "t \<in> set (split_js c xs)"
      then have "sublist t xs" by (rule Cons.IH)
      then show ?thesis by (simp add: sublist_Cons_right)
    qed
  next
    case False
    obtain u us where sp: "split_js c xs = u # us"
      using split_js_nonempty [of c xs] by (cases "split_js c xs") auto
    from Cons.prems False sp have "t = x # u \<or> t \<in> set us" by auto
    then show ?thesis
    proof
      assume t: "t = x # u"
      have "prefix u xs" using sp by (rule split_js_hd_prefix)
      then have "prefix t (x # xs)" using t by simp
      then show ?thesis by (rule prefix_imp_sublist)
    next
      assume "t \<in> set us"
      then have "t \<in> set (split_js c xs)" using sp by simp
      then have "sublist t xs" by (rule Cons.IH)
      then show ?thesis by (simp add: sublist_Cons_right)
    qed
  qed
qed


lemma searchTargets_sublist:
  assumes "t \<in> set (searchTargets file)"
  shows "sublist t (toLowerCase (name file))
         \<or> sublist t (toLowerCase (directory file))
         \<or> sublist t (toLowerCase (relativePath file))"
proof -
  let ?fileName = "toLowerCase (name file)"
  let ?stem = "path_parse_name ?fileName"
  have stem: "sublist ?stem ?fileName" by (rule path_parse_name_sublist)
  from assms consider
      "t = ?fileName" | "t = ?stem" | "t = toLowerCase (directory file)"
    | "t = toLowerCase (relativePath file)"
    | "t \<in> set (split_js CHR ''-'' ?stem)"
    | "t \<in> set (split_js CHR ''/'' (toLowerCase (directory file)))"
    | "t \<in> set (split_js CHR ''/'' (toLowerCase (relativePath file)))"
    by (auto simp: searchTargets_def Let_def)
  then show ?thesis
  proof cases
    case 5
    then have "sublist t ?stem" by (rule split_js_sublist)
    then have "sublist t ?fileName" using stem by (rule sublist_chain)
    then show ?thesis by simp
  qed (auto intro: stem split_js_sublist)
qed

lemma three_fields_are_targets:
  "toLowerCase (name file) \<in> set (searchTargets file)"
  "toLowerCase (directory file) \<in> set (searchTargets file)"
  "toLowerCase (relativePath file) \<in> set (searchTargets file)"
  by (simp_all add: searchTargets_def Let_def)

lemma Set_values_fold:
  "set (fold (\<lambda>x acc. if x \<in> set acc then acc else acc @ [x]) xs acc) = set acc \<union> set xs
   \<and> (distinct acc \<longrightarrow> distinct (fold (\<lambda>x acc. if x \<in> set acc then acc else acc @ [x]) xs acc))"
  by (induction xs arbitrary: acc) auto

lemma set_Set_values: "set (Set_values xs) = set xs"
  using Set_values_fold [of xs "[]"] by (simp add: Set_values_def)

lemma distinct_Set_values: "distinct (Set_values xs)"
  using Set_values_fold [of xs "[]"] by (simp add: Set_values_def)

lemma directories_searchRecords:
  "directories (searchRecords lc allFiles searchTerm filterDir)
     = sort (Set_values (map directory allFiles))"
  by (simp add: searchRecords_def Let_def)

lemma directories_searchIconFiles_json:
  "directories (searchIconFiles_json lc (Some allFiles) searchTerm filterDir)
     = sort (Set_values (map directory allFiles))"
  by (simp add: searchIconFiles_json_def Let_def)

lemma searchIconFiles_accessible:
  "fs directory' = Some readdir \<Longrightarrow>
   searchIconFiles lc fs searchTerm directory' filterDir
     = searchRecords lc (getAllFilesRecursively readdir [] 0 10) searchTerm filterDir"
  by (simp add: searchIconFiles_def)

lemma icons_searchRecords_blank:
  "trim searchTerm = [] \<Longrightarrow>
   icons (searchRecords lc allFiles searchTerm filterDir)
     = Array_sort (compareDirectoryName lc) (scopedSet allFiles filterDir)"
  by (simp add: searchRecords_def scopedSet_def Let_def split: option.splits)

lemma icons_searchRecords_query:
  "trim searchTerm \<noteq> [] \<Longrightarrow>
   icons (searchRecords lc allFiles searchTerm filterDir)
     = Array_sort (compareRelevance lc (toLowerCase searchTerm))
         (filter (matchesSearch (toLowerCase searchTerm)) (scopedSet allFiles filterDir))"
  by (simp add: searchRecords_def scopedSet_def Let_def split: option.splits)

lemma icons_searchIconFiles_json_query:
  "trim searchTerm \<noteq> [] \<Longrightarrow>
   icons (searchIconFiles_json lc (Some allFiles) searchTerm filterDir)
     = Array_sort (compareRelevance_json lc (toLowerCase searchTerm))
         (filter (matchesSearch (toLowerCase searchTerm)) (scopedSet allFiles filterDir))"
  by (simp add: searchIconFiles_json_def scopedSet_def Let_def split: option.splits)

lemma matchesSearch_empty: "matchesSearch [] file"
  using three_fields_are_targets(1)
  by (auto simp: matchesSearch_def list_ex_iff str_includes_def)

lemma sorted_wrt_sort_insert_on:
  assumes tr: "\<And>a b c. a \<in> S \<Longrightarrow> b \<in> S \<Longrightarrow> c \<in> S \<Longrightarrow> R a b \<Longrightarrow> R b c \<Longrightarrow> R a c"
    and le: "\<And>y. c x y \<le> 0 \<Longrightarrow> R x y"
    and gt: "\<And>y. \<not> c x y \<le> 0 \<Longrightarrow> R y x"
    and x: "x \<in> S"
    and sub: "set xs \<subseteq> S"
    and srt: "sorted_wrt R xs"
  shows "sorted_wrt R (sort_insert c x xs)"
  using sub srt
proof (induction xs)
  case Nil
  show ?case by simp
next
  case (Cons y ys)
  from Cons.prems have y: "y \<in> S" and ys: "set ys \<subseteq> S" by auto
  show ?case
  proof (cases "c x y \<le> 0")
    case True
    have xy: "R x y" using le True by blast
    have "R x z" if "z \<in> set ys" for z
    proof -
      from that Cons.prems have "R y z" and "z \<in> S" by auto
      with xy x y show ?thesis by (blast intro: tr)
    qed
    with xy Cons.prems True show ?thesis by simp
  next
    case False
    have yx: "R y x" using gt False by blast
    from Cons.prems have "sorted_wrt R ys" by simp
    with ys have "sorted_wrt R (sort_insert c x ys)" by (rule Cons.IH)
    with yx Cons.prems False show ?thesis by (simp add: set_sort_insert)
  qed
qed

lemma sorted_wrt_Array_sort_on:
  assumes tr: "\<And>a b c. a \<in> S \<Longrightarrow> b \<in> S \<Longrightarrow> c \<in> S \<Longrightarrow> R a b \<Longrightarrow> R b c \<Longrightarrow> R a c"
    and le: "\<And>x y. c x y \<le> 0 \<Longrightarrow> R x y"
    and gt: "\<And>x y. \<not> c x y \<le> 0 \<Longrightarrow> R y x"
    and sub: "set xs \<subseteq> S"
  shows "sorted_wrt R (Array_sort c xs)"
  using sub
proof (induction xs)
  case Nil
  show ?case by simp
next
  case (Cons x xs)
  from Cons.prems have x: "x \<in> S" and xs: "set xs \<subseteq> S" by auto
  from xs have srt: "sorted_wrt R (Array_sort c xs)" by (rule Cons.IH)
  from xs have sub': "set (Array_sort c xs) \<subseteq> S" by (simp add: set_Array_sort)
  have "sorted_wrt R (sort_insert c x (Array_sort c xs))"
    using tr le gt x sub' srt by (rule sorted_wrt_sort_insert_on)
  then show ?case by simp
qed

lemma directoryThenName_trans:
  assumes tr: "\<And>x y z. lc x y \<le> 0 \<Longrightarrow> lc y z \<le> 0 \<Longrightarrow> lc x z \<le> 0"
    and apart: "lc (directory a) (directory b) \<le> 0 \<Longrightarrow> lc (directory b) (directory a) \<le> 0
                \<Longrightarrow> directory a = directory b"
    and ab: "directoryThenName lc a b" and bc: "directoryThenName lc b c"
  shows "directoryThenName lc a c"
proof -
  have d: "lc (directory a) (directory c) \<le> 0"
    using ab bc tr unfolding directoryThenName_def by blast
  have "lc (name a) (name c) \<le> 0" if eq: "directory a = directory c"
  proof -
    have "directory a = directory b"
      using ab bc eq apart unfolding directoryThenName_def by auto
    with ab bc eq show ?thesis
      unfolding directoryThenName_def using tr by auto
  qed
  with d show ?thesis
    unfolding directoryThenName_def by blast
qed

lemma compareDirectoryName_le:
  assumes refl: "\<And>x. lc x x \<le> 0" and le: "compareDirectoryName lc a b \<le> 0"
  shows "directoryThenName lc a b"
  using le refl
  unfolding directoryThenName_def compareDirectoryName_def
  by (auto split: if_splits)

lemma compareDirectoryName_gt:
  assumes tot: "\<And>x y. \<not> lc x y \<le> 0 \<Longrightarrow> lc y x \<le> 0"
    and refl: "\<And>x. lc x x \<le> 0"
    and gt: "\<not> compareDirectoryName lc a b \<le> 0"
  shows "directoryThenName lc b a"
proof (cases "directory a = directory b")
  case True
  with gt have "\<not> lc (name a) (name b) \<le> 0"
    by (simp add: compareDirectoryName_def)
  then have "lc (name b) (name a) \<le> 0" by (rule tot)
  with True refl show ?thesis by (simp add: directoryThenName_def)
next
  case False
  with gt have "\<not> lc (directory a) (directory b) \<le> 0"
    by (simp add: compareDirectoryName_def)
  then have "lc (directory b) (directory a) \<le> 0" by (rule tot)
  with False show ?thesis by (auto simp: directoryThenName_def)
qed

lemma empty_query_returns_scoped_records:
  assumes "trim searchTerm = []"
  shows "mset (icons (searchRecords lc allFiles searchTerm filterDir))
           = mset (scopedSet allFiles filterDir)"
  by (simp add: icons_searchRecords_blank [OF assms] mset_Array_sort)

lemma score_exact_lower:
  assumes "isExactMatch q r"
  shows "160 - depth r \<le> getRelevanceScore q r"
proof -
  let ?fileName = "toLowerCase (name r)"
  from assms have ex: "?fileName = q \<or> path_parse_name ?fileName = q"
    by (simp add: isExactMatch_def)
  then have st: "startsWith ?fileName q \<or> startsWith (path_parse_name ?fileName) q"
    by (auto simp: startsWith_def)
  from ex have inc: "str_includes ?fileName q"
    using path_parse_name_sublist [of ?fileName] by (auto simp: str_includes_def)
  from ex st inc show ?thesis
    by (simp add: getRelevanceScore_def Let_def)
qed

lemma score_nonexact_upper:
  assumes "\<not> isExactMatch q r"
  shows "getRelevanceScore q r \<le> 85 - depth r"
  using assms by (simp add: getRelevanceScore_def isExactMatch_def Let_def)

lemma sorted_by_score:
  "sorted_wrt (\<lambda>a b. getRelevanceScore q b \<le> getRelevanceScore q a)
     (Array_sort (compareRelevance lc q) xs)"
  "sorted_wrt (\<lambda>a b. getRelevanceScore q b \<le> getRelevanceScore q a)
     (Array_sort (compareRelevance_json lc q) xs)"
proof -
  have tr: "transp (\<lambda>a b. getRelevanceScore q b \<le> getRelevanceScore q a)"
    by (rule transpI) simp
  show "sorted_wrt (\<lambda>a b. getRelevanceScore q b \<le> getRelevanceScore q a)
     (Array_sort (compareRelevance lc q) xs)"
    by (rule sorted_wrt_Array_sort [OF tr])
       (simp_all add: compareRelevance_def Let_def split: if_splits)
  show "sorted_wrt (\<lambda>a b. getRelevanceScore q b \<le> getRelevanceScore q a)
     (Array_sort (compareRelevance_json lc q) xs)"
    by (rule sorted_wrt_Array_sort [OF tr])
       (simp_all add: compareRelevance_json_def Let_def split: if_splits)
qed

lemma exact_first_in_score_order:
  assumes srt: "sorted_wrt (\<lambda>a b. getRelevanceScore q b \<le> getRelevanceScore q a) xs"
    and i: "i < length xs" and j: "j < length xs"
    and exact: "isExactMatch q (xs ! i)"
    and nonexact: "\<not> isExactMatch q (xs ! j)"
    and gap: "depth (xs ! i) < depth (xs ! j) + 75"
  shows "i < j"
proof (rule ccontr)
  assume "\<not> i < j"
  moreover have "i \<noteq> j" using exact nonexact by auto
  ultimately have ji: "j < i" by simp
  with srt i have "getRelevanceScore q (xs ! i) \<le> getRelevanceScore q (xs ! j)"
    by (simp add: sorted_wrt_iff_nth_less)
  moreover have "160 - depth (xs ! i) \<le> getRelevanceScore q (xs ! i)"
    using exact by (rule score_exact_lower)
  moreover have "getRelevanceScore q (xs ! j) \<le> 85 - depth (xs ! j)"
    using nonexact by (rule score_nonexact_upper)
  ultimately show False using gap by simp
qed

lemma set_scopedSet: "set (scopedSet allFiles filterDir) \<subseteq> set allFiles"
  by (auto simp: scopedSet_def split: option.splits)

lemma empty_query_sorted_when_directories_collate_apart:
  assumes blank: "trim searchTerm = []"
    and total: "\<forall>a b. lc a b \<le> 0 \<or> lc b a \<le> 0"
    and trans: "\<forall>a b c. lc a b \<le> 0 \<and> lc b c \<le> 0 \<longrightarrow> lc a c \<le> 0"
    and apart: "\<forall>a \<in> set allFiles. \<forall>b \<in> set allFiles.
                  lc (directory a) (directory b) \<le> 0 \<and> lc (directory b) (directory a) \<le> 0
                  \<longrightarrow> directory a = directory b"
  shows "sorted_wrt (directoryThenName lc) (icons (searchRecords lc allFiles searchTerm filterDir))"
proof -
  have refl: "\<And>x. lc x x \<le> 0" using total by blast
  have tot: "\<And>x y. \<not> lc x y \<le> 0 \<Longrightarrow> lc y x \<le> 0" using total by blast
  have tr: "\<And>x y z. lc x y \<le> 0 \<Longrightarrow> lc y z \<le> 0 \<Longrightarrow> lc x z \<le> 0" using trans by blast
  have trR: "directoryThenName lc a c"
    if "a \<in> set allFiles" "b \<in> set allFiles" "c \<in> set allFiles"
      "directoryThenName lc a b" "directoryThenName lc b c" for a b c
  proof (rule directoryThenName_trans [OF tr _ that(4) that(5)])
    show "directory a = directory b"
      if "lc (directory a) (directory b) \<le> 0" "lc (directory b) (directory a) \<le> 0"
      using that apart \<open>a \<in> set allFiles\<close> \<open>b \<in> set allFiles\<close> by blast
  qed
  have "sorted_wrt (directoryThenName lc)
          (Array_sort (compareDirectoryName lc) (scopedSet allFiles filterDir))"
    using trR compareDirectoryName_le [OF refl] compareDirectoryName_gt [OF tot refl]
      set_scopedSet [of allFiles filterDir]
    by (rule sorted_wrt_Array_sort_on)
  then show ?thesis by (simp add: icons_searchRecords_blank [OF blank])
qed

lemma softHyphenCompare_preorder:
  "\<forall>a b. softHyphenCompare a b \<le> 0 \<or> softHyphenCompare b a \<le> 0"
  "\<forall>a b c. softHyphenCompare a b \<le> 0 \<and> softHyphenCompare b c \<le> 0
     \<longrightarrow> softHyphenCompare a c \<le> 0"
  unfolding softHyphenCompare_def codeUnitCompare_def
  by (auto split: if_splits)

lemma empty_query_sorted_sample:
  "sorted_wrt (directoryThenName softHyphenCompare)
     (icons (searchRecords softHyphenCompare
        [lambda_svg, lambda_function_svg, aws_lambda_arch_png] ''  '' None))"
proof -
  have blank: "trim ''  '' = []" by code_simp
  have apart: "\<forall>a \<in> set [lambda_svg, lambda_function_svg, aws_lambda_arch_png].
                 \<forall>b \<in> set [lambda_svg, lambda_function_svg, aws_lambda_arch_png].
                   softHyphenCompare (directory a) (directory b) \<le> 0
                   \<and> softHyphenCompare (directory b) (directory a) \<le> 0
                   \<longrightarrow> directory a = directory b"
    by code_simp
  show ?thesis
    using blank softHyphenCompare_preorder apart
    by (rule empty_query_sorted_when_directories_collate_apart)
qed

section \<open>Properties of the search engine\<close>

text \<open>
  Claim C1. For every record and every query, the relevance score that the search
  engine computes against the lower-cased query is the sum of: 100 if the lower-cased
  file name or that name without its extension equals the query; 50 more if either of
  them starts with the query; 25 if the lower-cased directory contains the query; 10
  if the lower-cased file name contains the query; minus the record's depth.
\<close>

theorem relevance_score_is_sum:
  "getRelevanceScore (toLowerCase searchTerm) file =
     (if toLowerCase (name file) = toLowerCase searchTerm
         \<or> path_parse_name (toLowerCase (name file)) = toLowerCase searchTerm
      then 100 else 0)
   + (if startsWith (toLowerCase (name file)) (toLowerCase searchTerm)
         \<or> startsWith (path_parse_name (toLowerCase (name file))) (toLowerCase searchTerm)
      then 50 else 0)
   + (if str_includes (toLowerCase (directory file)) (toLowerCase searchTerm) then 25 else 0)
   + (if str_includes (toLowerCase (name file)) (toLowerCase searchTerm) then 10 else 0)
   - depth file"
  by (simp add: getRelevanceScore_def Let_def)

theorem relevance_score_is_sum_witness:
  "getRelevanceScore (toLowerCase ''Lambda'') lambda_svg = 100 + 50 + 0 + 10 - 0
   \<and> getRelevanceScore (toLowerCase ''Lambda'') aws_lambda_arch_png = 0 + 0 + 0 + 10 - 2"
proof -
  have a: "toLowerCase (name lambda_svg) = toLowerCase ''Lambda''
             \<or> path_parse_name (toLowerCase (name lambda_svg)) = toLowerCase ''Lambda''"
    by code_simp
  have b: "startsWith (toLowerCase (name lambda_svg)) (toLowerCase ''Lambda'')"
    by code_simp
  have c: "\<not> str_includes (toLowerCase (directory lambda_svg)) (toLowerCase ''Lambda'')"
    by code_simp
  have d: "str_includes (toLowerCase (name lambda_svg)) (toLowerCase ''Lambda'')"
    by code_simp
  have e: "depth lambda_svg = 0" by code_simp
  have a': "\<not> (toLowerCase (name aws_lambda_arch_png) = toLowerCase ''Lambda''
             \<or> path_parse_name (toLowerCase (name aws_lambda_arch_png)) = toLowerCase ''Lambda'')"
    by code_simp
  have b': "\<not> (startsWith (toLowerCase (name aws_lambda_arch_png)) (toLowerCase ''Lambda'')
             \<or> startsWith (path_parse_name (toLowerCase (name aws_lambda_arch_png)))
                  (toLowerCase ''Lambda''))"
    by code_simp
  have c': "\<not> str_includes (toLowerCase (directory aws_lambda_arch_png)) (toLowerCase ''Lambda'')"
    by code_simp
  have d': "str_includes (toLowerCase (name aws_lambda_arch_png)) (toLowerCase ''Lambda'')"
    by code_simp
  have e': "depth aws_lambda_arch_png = 2" by code_simp
  show ?thesis
    using relevance_score_is_sum [of "''Lambda''" lambda_svg]
      relevance_score_is_sum [of "''Lambda''" aws_lambda_arch_png]
      a b c d e a' b' c' d' e'
    by simp
qed

text \<open>
  Claim C2, as stated: for every query, each record of the returned list has a match
  target that contains the lower-cased query. It fails for a query of white space only:
  the query of one space is treated as empty, every scoped record is returned, and
  \<open>lambda.svg\<close> under \<open>root\<close> has no target with a space in it.
\<close>

theorem blank_query_returns_unmatched_record:
  "icons (searchRecords codeUnitCompare [lambda_svg] '' '' None) = [lambda_svg]
   \<and> \<not> matchesSearch (toLowerCase '' '') lambda_svg"
  by code_simp

text \<open>
  Claim C2, amended: for every query that is empty or has a character that is not white
  space, every record list and every optional directory filter, each record of the
  returned list has a match target that contains the lower-cased query.
\<close>

theorem results_satisfy_match_predicate:
  assumes "searchTerm = [] \<or> trim searchTerm \<noteq> []"
  shows "\<forall>r \<in> set (icons (searchRecords lc allFiles searchTerm filterDir)).
           matchesSearch (toLowerCase searchTerm) r"
proof (cases "searchTerm = []")
  case True
  then show ?thesis by (simp add: toLowerCase_def matchesSearch_empty)
next
  case False
  with assms have "trim searchTerm \<noteq> []" by simp
  then show ?thesis
    by (simp add: icons_searchRecords_query set_Array_sort)
qed

theorem results_satisfy_match_predicate_witness:
  "trim ''Lambda'' \<noteq> []
   \<and> icons (searchRecords codeUnitCompare
        [aws_lambda_arch_png, ec2_instance_svg, lambda_svg] ''Lambda'' None)
       = [lambda_svg, aws_lambda_arch_png]
   \<and> list_all (matchesSearch (toLowerCase ''Lambda''))
        (icons (searchRecords codeUnitCompare
           [aws_lambda_arch_png, ec2_instance_svg, lambda_svg] ''Lambda'' None))"
proof -
  have h: "trim ''Lambda'' \<noteq> []" by code_simp
  then have h': "''Lambda'' = [] \<or> trim ''Lambda'' \<noteq> []" by simp
  have r: "icons (searchRecords codeUnitCompare
        [aws_lambda_arch_png, ec2_instance_svg, lambda_svg] ''Lambda'' None)
       = [lambda_svg, aws_lambda_arch_png]"
    by code_simp
  from results_satisfy_match_predicate [OF h'] h r show ?thesis
    unfolding list_all_iff by blast
qed

text \<open>
  Claim C3. For every record list, query and optional directory filter, the
  \<open>directories\<close> of the result are the directory values of the whole, unfiltered record
  list: in ascending order, without duplicates, whatever the filter. The snapshot
  version of the route gives the same roster.
\<close>

theorem directories_roster_of_all_records:
  "sorted (directories (searchRecords lc allFiles searchTerm filterDir))
   \<and> distinct (directories (searchRecords lc allFiles searchTerm filterDir))
   \<and> set (directories (searchRecords lc allFiles searchTerm filterDir)) = directory ` set allFiles
   \<and> directories (searchIconFiles_json lc (Some allFiles) searchTerm filterDir)
       = directories (searchRecords lc allFiles searchTerm filterDir)"
  by (simp add: directories_searchRecords directories_searchIconFiles_json
        set_Set_values distinct_Set_values)

theorem directories_roster_of_all_records_witness:
  "directories (searchRecords codeUnitCompare
      [lambda_svg, lambda_function_svg, aws_lambda_arch_png, lambda_svg] [] (Some ''compute''))
   = [''compute'', ''compute/diagrams'', ''root'']"
proof -
  have "directories (searchRecords codeUnitCompare
      [lambda_svg, lambda_function_svg, aws_lambda_arch_png, lambda_svg] [] (Some ''compute''))
   = [''compute'', ''compute/diagrams'', ''root'']"
    by code_simp
  with directories_roster_of_all_records [of codeUnitCompare
      "[lambda_svg, lambda_function_svg, aws_lambda_arch_png, lambda_svg]" "[]" "Some ''compute''"]
  show ?thesis by simp
qed

text \<open>
  Claim C4. For every record list and every query that is empty or white space only,
  the search returns exactly the scoped set, each record once, in ascending order of
  directory and then of name. The records are all returned (lemma
  \<open>empty_query_returns_scoped_records\<close>), and they are in that order whenever no two
  different directories collate equal (lemma
  \<open>empty_query_sorted_when_directories_collate_apart\<close>). The comparison function of the
  source decides with \<open>!==\<close> whether two directories are the same and with
  \<open>localeCompare\<close> how they are ordered. For a directory whose name is \<open>root\<close> with a soft
  hyphen in it, which collates equal to \<open>root\<close>, it returns 0 against the files directly
  under the root, whatever the names. The walk lists \<open>z.svg\<close>, then \<open>m.svg\<close> of that
  directory, then \<open>a.svg\<close>; every comparison the sort makes gives 0, the list is returned
  as it is, and \<open>z.svg\<close> stands before \<open>a.svg\<close> although both are in \<open>root\<close>.
\<close>

theorem empty_query_unsorted_when_directories_collate_equal:
  "map (\<lambda>r. (directory r, name r))
       (icons (searchIconFiles softHyphenCompare softHyphenFileSystem [] ''public/icons'' None))
     = [(''root'', ''z.svg''), (''ro'' @ [CHR 0xAD] @ ''ot'', ''m.svg''), (''root'', ''a.svg'')]
   \<and> softHyphenCompare ''root'' (''ro'' @ [CHR 0xAD] @ ''ot'') = 0
   \<and> softHyphenCompare ''z.svg'' ''a.svg'' = 1
   \<and> trim [] = []"
  by code_simp

text \<open>
  Claim C5, as stated: an exact match is listed at or above every matched record that
  is not exact. It fails when the exact match lies much deeper: the depth
  penalty has no bound, so \<open>ec2.svg\<close> at depth 101 scores 59 for the query \<open>ec2\<close> and
  is listed after \<open>ec2-instance.svg\<close> at depth 0, which scores 60.
\<close>

theorem deep_exact_match_ranks_below_prefix_match:
  "icons (searchIconFiles_json codeUnitCompare (Some [deep_ec2_svg, ec2_instance_svg]) ''ec2'' None)
     = [ec2_instance_svg, deep_ec2_svg]
   \<and> icons (searchRecords codeUnitCompare [deep_ec2_svg, ec2_instance_svg] ''ec2'' None)
     = [ec2_instance_svg, deep_ec2_svg]
   \<and> isExactMatch (toLowerCase ''ec2'') deep_ec2_svg
   \<and> \<not> isExactMatch (toLowerCase ''ec2'') ec2_instance_svg
   \<and> getRelevanceScore (toLowerCase ''ec2'') deep_ec2_svg = 59
   \<and> getRelevanceScore (toLowerCase ''ec2'') ec2_instance_svg = 60"
  by code_simp

text \<open>
  Claim C5, amended: for every record list and every query that is not empty or white
  space only, an exact match is listed above every matched record that is not exact
  and whose depth is more than the exact match's depth minus 75. This covers all
  records of the indexers, whose depths lie between 0 and 10.
\<close>

theorem exact_match_ranks_above:
  assumes q: "trim searchTerm \<noteq> []"
    and xs: "xs = icons (searchRecords lc allFiles searchTerm filterDir)
             \<or> xs = icons (searchIconFiles_json lc (Some allFiles) searchTerm filterDir)"
    and i: "i < length xs" and j: "j < length xs"
    and exact: "isExactMatch (toLowerCase searchTerm) (xs ! i)"
    and nonexact: "\<not> isExactMatch (toLowerCase searchTerm) (xs ! j)"
    and gap: "depth (xs ! i) < depth (xs ! j) + 75"
  shows "i < j"
proof -
  have "sorted_wrt (\<lambda>a b. getRelevanceScore (toLowerCase searchTerm) b
                          \<le> getRelevanceScore (toLowerCase searchTerm) a) xs"
    using xs sorted_by_score
    by (auto simp: icons_searchRecords_query [OF q] icons_searchIconFiles_json_query [OF q])
  then show ?thesis using i j exact nonexact gap by (rule exact_first_in_score_order)
qed

theorem exact_match_ranks_above_witness:
  "trim ''Lambda'' \<noteq> []
   \<and> icons (searchRecords codeUnitCompare
        [aws_lambda_arch_png, lambda_function_svg, lambda_svg] ''Lambda'' None)
       = [lambda_svg, lambda_function_svg, aws_lambda_arch_png]
   \<and> isExactMatch (toLowerCase ''Lambda'') ([lambda_svg, lambda_function_svg, aws_lambda_arch_png] ! 0)
   \<and> \<not> isExactMatch (toLowerCase ''Lambda'')
         ([lambda_svg, lambda_function_svg, aws_lambda_arch_png] ! 1)
   \<and> depth ([lambda_svg, lambda_function_svg, aws_lambda_arch_png] ! 0)
       < depth ([lambda_svg, lambda_function_svg, aws_lambda_arch_png] ! 1) + 75
   \<and> (0::nat) < 1"
proof -
  let ?xs = "[lambda_svg, lambda_function_svg, aws_lambda_arch_png]"
  have h1: "trim ''Lambda'' \<noteq> []" by code_simp
  have h2: "icons (searchRecords codeUnitCompare
        [aws_lambda_arch_png, lambda_function_svg, lambda_svg] ''Lambda'' None) = ?xs"
    by code_simp
  then have h2': "?xs = icons (searchRecords codeUnitCompare
        [aws_lambda_arch_png, lambda_function_svg, lambda_svg] ''Lambda'' None)
      \<or> ?xs = icons (searchIconFiles_json codeUnitCompare
        (Some [aws_lambda_arch_png, lambda_function_svg, lambda_svg]) ''Lambda'' None)"
    by simp
  have h3: "0 < length ?xs" and h4: "1 < length ?xs" by simp_all
  have h5: "isExactMatch (toLowerCase ''Lambda'') (?xs ! 0)" by code_simp
  have h6: "\<not> isExactMatch (toLowerCase ''Lambda'') (?xs ! 1)" by code_simp
  have h7: "depth (?xs ! 0) < depth (?xs ! 1) + 75" by code_simp
  from exact_match_ranks_above [OF h1 h2' h3 h4 h5 h6 h7] h1 h2 h5 h6 h7
  show ?thesis by blast
qed

text \<open>
  Claim C6. The search entry point always returns a result. When the indexed root does
  not exist or cannot be accessed or read, and when the snapshot cannot be read or
  parsed, that result is the empty one, with no icons and no directories.
\<close>

theorem failure_gives_empty_result:
  "(fs directory' = None \<or> fs directory' = Some None \<longrightarrow>
      searchIconFiles lc fs searchTerm directory' filterDir = \<lparr>icons = [], directories = []\<rparr>)
   \<and> searchIconFiles_json lc None searchTerm filterDir = \<lparr>icons = [], directories = []\<rparr>"
  by (auto simp: searchIconFiles_def searchIconFiles_json_def searchRecords_def Let_def
        Set_values_def split: option.splits)

theorem failure_gives_empty_result_witness:
  "noFileSystem ''public/icons'' = None
   \<and> searchIconFiles codeUnitCompare noFileSystem ''ec2'' ''public/icons'' None
       = \<lparr>icons = [], directories = []\<rparr>"
proof -
  have h: "noFileSystem ''public/icons'' = None" by (simp add: noFileSystem_def)
  with failure_gives_empty_result [of noFileSystem "''public/icons''" codeUnitCompare "''ec2''" None]
  show ?thesis by blast
qed

text \<open>
  Claim C10. For every record and every query, the match predicate over the seven
  kinds of targets holds exactly when the query occurs in the lower-cased file name,
  directory or relative path: the name without extension and the pieces split at
  \<open>-\<close> and \<open>/\<close> are parts of those three and add no match.
\<close>

theorem match_targets_reduce_to_three_fields:
  "matchesSearch searchTermLower file = matchesThreeFields searchTermLower file"
proof
  assume "matchesSearch searchTermLower file"
  then obtain t where t: "t \<in> set (searchTargets file)" and q: "sublist searchTermLower t"
    by (auto simp: matchesSearch_def str_includes_def list_ex_iff)
  from searchTargets_sublist [OF t] q show "matchesThreeFields searchTermLower file"
    unfolding matchesThreeFields_def str_includes_def
    by (blast intro: sublist_chain)
next
  assume "matchesThreeFields searchTermLower file"
  then show "matchesSearch searchTermLower file"
    unfolding matchesThreeFields_def matchesSearch_def list_ex_iff
    using three_fields_are_targets by blast
qed

theorem match_targets_reduce_to_three_fields_witness:
  "matchesSearch ''diagrams'' aws_lambda_arch_png
   \<and> matchesThreeFields ''diagrams'' aws_lambda_arch_png
   \<and> \<not> matchesSearch ''ec2'' aws_lambda_arch_png"
proof -
  have "matchesThreeFields ''diagrams'' aws_lambda_arch_png" by code_simp
  moreover have "\<not> matchesThreeFields ''ec2'' aws_lambda_arch_png" by code_simp
  ultimately show ?thesis
    using match_targets_reduce_to_three_fields [of "''diagrams''" aws_lambda_arch_png]
      match_targets_reduce_to_three_fields [of "''ec2''" aws_lambda_arch_png]
    by simp
qed

section \<open>Properties of the indexers\<close>

lemma separatorCount_append: "separatorCount (a @ b) = separatorCount a + separatorCount b"
  by (simp add: separatorCount_def)

lemma replace_backslashes_append:
  "replace_backslashes (a @ b) = replace_backslashes a @ replace_backslashes b"
  by (simp add: replace_backslashes_def)

lemma replace_backslashes_plain: "CHR 0x5C \<notin> set s \<Longrightarrow> replace_backslashes s = s"
  by (induction s) (auto simp: replace_backslashes_def)

lemma separatorCount_plain: "CHR ''/'' \<notin> set s \<Longrightarrow> separatorCount s = 0"
  by (induction s) (auto simp: separatorCount_def)

lemma separatorCount_plainName:
  "plainName s \<Longrightarrow> separatorCount (replace_backslashes s) = 0"
  by (simp add: plainName_def replace_backslashes_plain separatorCount_plain)

lemma separatorCount_slash:
  "separatorCount (replace_backslashes (CHR ''/'' # s)) = 1 + separatorCount (replace_backslashes s)"
  by (simp add: separatorCount_def replace_backslashes_def)

lemma separatorCount_join:
  "list_all plainName ns \<Longrightarrow> ns \<noteq> [] \<Longrightarrow>
   separatorCount (replace_backslashes (path_join_names ns)) = int (length ns) - 1"
proof (induction ns rule: path_join_names.induct)
  case 1
  then show ?case by simp
next
  case (2 x)
  then show ?case by (simp add: separatorCount_plainName)
next
  case (3 x y zs)
  then have "separatorCount (replace_backslashes (path_join_names (y # zs)))
               = int (length (y # zs)) - 1"
    by simp
  moreover have "separatorCount (replace_backslashes x) = 0"
    using "3.prems" by (simp add: separatorCount_plainName)
  ultimately show ?case
    by (simp add: replace_backslashes_append separatorCount_append separatorCount_slash)
qed

lemma separatorCount_entry:
  assumes "list_all plainName dirPath" and "plainName entryName"
  shows "separatorCount (replace_backslashes (path_relative_entry dirPath entryName))
           = int (length dirPath)"
  using separatorCount_join [of "dirPath @ [entryName]"] assms
  by (simp add: path_relative_entry_def)

lemma fileRecord_fields:
  "depth (fileRecord dirPath entryName stats d) = d"
  "relativePath (fileRecord dirPath entryName stats d)
     = replace_backslashes (path_relative_entry dirPath entryName)"
  "path (fileRecord dirPath entryName stats d)
     = replace_backslashes (replace_public_prefix (path_relative_entry dirPath entryName))"
  by (simp_all add: fileRecord_def Let_def)

lemma iconRecord_fields:
  "depth (iconRecord dirPath entryName stats d) = d"
  "relativePath (iconRecord dirPath entryName stats d)
     = replace_backslashes (path_relative_entry dirPath entryName)"
  "path (iconRecord dirPath entryName stats d)
     = ''/icons/'' @ replace_backslashes (path_relative_entry dirPath entryName)"
  by (simp_all add: iconRecord_def Let_def)

lemma getAllFilesRecursively_depth:
  "list_all plainName dirPath \<Longrightarrow>
   (case readdir of None \<Rightarrow> True | Some entries \<Rightarrow> list_all plainNames entries) \<Longrightarrow>
   r \<in> set (getAllFilesRecursively readdir dirPath currentDepth maxDepth) \<Longrightarrow>
   separatorCount (relativePath r) + currentDepth = int (length dirPath) + depth r"
  "list_all plainName dirPath \<Longrightarrow> list_all plainNames entries \<Longrightarrow>
   r \<in> set (getAllFilesRecursively_loop entries dirPath currentDepth maxDepth) \<Longrightarrow>
   separatorCount (relativePath r) + currentDepth = int (length dirPath) + depth r"
proof (induction readdir dirPath currentDepth maxDepth and entries dirPath currentDepth maxDepth
       rule: getAllFilesRecursively_getAllFilesRecursively_loop.induct)
  case (1 readdir dirPath currentDepth maxDepth)
  then show ?case by (auto split: if_splits option.splits)
next
  case (2 dirPath currentDepth maxDepth)
  then show ?case by simp
next
  case (3 entryName sub entries dirPath currentDepth maxDepth)
  from "3.prems"(3) consider
      (sub) "\<not> (startsWith entryName ''.'' \<or> entryName = ''node_modules'')"
        "r \<in> set (getAllFilesRecursively sub (dirPath @ [entryName]) (currentDepth + 1) maxDepth)"
    | (rest) "r \<in> set (getAllFilesRecursively_loop entries dirPath currentDepth maxDepth)"
    by (cases "startsWith entryName ''.'' \<or> entryName = ''node_modules''") auto
  then show ?case
  proof cases
    case sub
    have "separatorCount (relativePath r) + (currentDepth + 1)
            = int (length (dirPath @ [entryName])) + depth r"
      using sub "3.prems"(1,2) by (intro "3.IH"(1)) auto
    then show ?thesis by simp
  next
    case rest
    then show ?thesis using "3.prems"(1,2) by (intro "3.IH"(2)) auto
  qed
next
  case (4 entryName st entries dirPath currentDepth maxDepth)
  from "4.prems"(3) have
    "(\<exists>stats. r = fileRecord dirPath entryName stats currentDepth)
     \<or> r \<in> set (getAllFilesRecursively_loop entries dirPath currentDepth maxDepth)"
    by (cases "toLowerCase (path_extname entryName) \<in> set supportedFormats"; cases st) auto
  then show ?case
  proof
    assume "\<exists>stats. r = fileRecord dirPath entryName stats currentDepth"
    then show ?thesis
      using "4.prems"(1,2) by (auto simp: fileRecord_fields separatorCount_entry)
  next
    assume "r \<in> set (getAllFilesRecursively_loop entries dirPath currentDepth maxDepth)"
    then show ?thesis using "4.prems"(1,2) by (intro "4.IH") auto
  qed
next
  case (5 entryName st entries dirPath currentDepth maxDepth)
  then show ?case by simp
qed

lemma getAllIconFiles_depth:
  "list_all plainName dirPath \<Longrightarrow>
   (case readdir of None \<Rightarrow> True | Some entries \<Rightarrow> list_all plainNames entries) \<Longrightarrow>
   getAllIconFiles readdir dirPath d maxDepth = Some files \<Longrightarrow> r \<in> set files \<Longrightarrow>
   separatorCount (relativePath r) + d = int (length dirPath) + depth r"
  "list_all plainName dirPath \<Longrightarrow> list_all plainNames entries \<Longrightarrow>
   getAllIconFiles_loop entries dirPath d maxDepth = Some files \<Longrightarrow> r \<in> set files \<Longrightarrow>
   separatorCount (relativePath r) + d = int (length dirPath) + depth r"
proof (induction readdir dirPath d maxDepth and entries dirPath d maxDepth
       arbitrary: files and files
       rule: getAllIconFiles_getAllIconFiles_loop.induct)
  case (1 readdir dirPath d maxDepth)
  then show ?case by (auto split: if_splits option.splits)
next
  case (2 dirPath d maxDepth)
  then show ?case by simp
next
  case (3 entryName sub entries dirPath d maxDepth)
  from "3.prems"(3) obtain subFiles rest where
    s: "getAllIconFiles sub (dirPath @ [entryName]) (d + 1) maxDepth = Some subFiles"
    and l: "getAllIconFiles_loop entries dirPath d maxDepth = Some rest"
    and f: "files = subFiles @ rest"
    by (auto split: option.splits)
  from f "3.prems"(4) consider "r \<in> set subFiles" | "r \<in> set rest" by auto
  then show ?case
  proof cases
    case 1
    have "separatorCount (relativePath r) + (d + 1)
            = int (length (dirPath @ [entryName])) + depth r"
      using s 1 "3.prems"(1,2) by (intro "3.IH"(1)) auto
    then show ?thesis by simp
  next
    case 2
    show ?thesis using s l 2 "3.prems"(1,2) by (intro "3.IH"(2)) auto
  qed
next
  case (4 entryName st entries dirPath d maxDepth)
  show ?case
  proof (cases "toLowerCase (path_extname entryName) \<notin> set supportedFormats")
    case True
    with "4.prems" show ?thesis by (intro "4.IH"(1)) auto
  next
    case False
    with "4.prems"(3) obtain stats rest where
      st: "st = Some stats"
      and l: "getAllIconFiles_loop entries dirPath d maxDepth = Some rest"
      and f: "files = iconRecord dirPath entryName stats d # rest"
      by (auto split: option.splits)
    from f "4.prems"(4) consider "r = iconRecord dirPath entryName stats d" | "r \<in> set rest"
      by auto
    then show ?thesis
    proof cases
      case 1
      then show ?thesis
        using "4.prems"(1,2) by (simp add: iconRecord_fields separatorCount_entry)
    next
      case 2
      show ?thesis using False st l 2 "4.prems"(1,2) by (intro "4.IH"(2)) auto
    qed
  qed
next
  case (5 entryName st entries dirPath d maxDepth)
  show ?case
  proof (cases "toLowerCase (path_extname entryName) \<notin> set supportedFormats")
    case True
    with "5.prems" show ?thesis by (intro "5.IH"(1)) auto
  next
    case False
    with "5.prems"(3) obtain stats rest where
      st: "st = Some stats"
      and l: "getAllIconFiles_loop entries dirPath d maxDepth = Some rest"
      and f: "files = iconRecord dirPath entryName stats d # rest"
      by (auto split: option.splits)
    from f "5.prems"(4) consider "r = iconRecord dirPath entryName stats d" | "r \<in> set rest"
      by auto
    then show ?thesis
    proof cases
      case 1
      then show ?thesis
        using "5.prems"(1,2) by (simp add: iconRecord_fields separatorCount_entry)
    next
      case 2
      show ?thesis using False st l 2 "5.prems"(1,2) by (intro "5.IH"(2)) auto
    qed
  qed
qed


lemma getAllIconFiles_records:
  "getAllIconFiles readdir dirPath d maxDepth = Some files \<Longrightarrow> r \<in> set files \<Longrightarrow>
   \<exists>dp nm stats d'. r = iconRecord dp nm stats d'"
  "getAllIconFiles_loop entries dirPath d maxDepth = Some files \<Longrightarrow> r \<in> set files \<Longrightarrow>
   \<exists>dp nm stats d'. r = iconRecord dp nm stats d'"
proof (induction readdir dirPath d maxDepth and entries dirPath d maxDepth
       arbitrary: files and files
       rule: getAllIconFiles_getAllIconFiles_loop.induct)
  case (1 readdir dirPath d maxDepth)
  show ?case
  proof (cases "d > maxDepth")
    case True
    with "1.prems" show ?thesis by simp
  next
    case False
    with "1.prems" obtain entries where "readdir = Some entries"
      and "getAllIconFiles_loop entries dirPath d maxDepth = Some files"
      by (cases readdir) auto
    with False "1.prems"(2) show ?thesis by (intro "1.IH") auto
  qed
next
  case (2 dirPath d maxDepth)
  then show ?case by simp
next
  case (3 entryName sub entries dirPath d maxDepth)
  from "3.prems"(1) obtain subFiles rest where
    s: "getAllIconFiles sub (dirPath @ [entryName]) (d + 1) maxDepth = Some subFiles"
    and l: "getAllIconFiles_loop entries dirPath d maxDepth = Some rest"
    and f: "files = subFiles @ rest"
    by (auto split: option.splits)
  from f "3.prems"(2) consider "r \<in> set subFiles" | "r \<in> set rest" by auto
  then show ?case
  proof cases
    case 1
    with s show ?thesis by (rule "3.IH"(1))
  next
    case 2
    with s l show ?thesis by (intro "3.IH"(2)) auto
  qed
next
  case (4 entryName st entries dirPath d maxDepth)
  show ?case
  proof (cases "toLowerCase (path_extname entryName) \<notin> set supportedFormats")
    case True
    with "4.prems" show ?thesis by (intro "4.IH"(1)) auto
  next
    case False
    with "4.prems"(1) obtain stats rest where
      st: "st = Some stats"
      and l: "getAllIconFiles_loop entries dirPath d maxDepth = Some rest"
      and f: "files = iconRecord dirPath entryName stats d # rest"
      by (auto split: option.splits)
    from f "4.prems"(2) consider "r = iconRecord dirPath entryName stats d" | "r \<in> set rest"
      by auto
    then show ?thesis
    proof cases
      case 1
      then show ?thesis by blast
    next
      case 2
      show ?thesis using False st l 2 by (intro "4.IH"(2)) auto
    qed
  qed
next
  case (5 entryName st entries dirPath d maxDepth)
  show ?case
  proof (cases "toLowerCase (path_extname entryName) \<notin> set supportedFormats")
    case True
    with "5.prems" show ?thesis by (intro "5.IH"(1)) auto
  next
    case False
    with "5.prems"(1) obtain stats rest where
      st: "st = Some stats"
      and l: "getAllIconFiles_loop entries dirPath d maxDepth = Some rest"
      and f: "files = iconRecord dirPath entryName stats d # rest"
      by (auto split: option.splits)
    from f "5.prems"(2) consider "r = iconRecord dirPath entryName stats d" | "r \<in> set rest"
      by auto
    then show ?thesis
    proof cases
      case 1
      then show ?thesis by blast
    next
      case 2
      show ?thesis using False st l 2 by (intro "5.IH"(2)) auto
    qed
  qed
qed

lemma getAllIconFiles_path_prefix:
  assumes "getAllIconFiles readdir dirPath d maxDepth = Some files" and "r \<in> set files"
  shows "startsWith (path r) ''/icons/''"
proof -
  from getAllIconFiles_records(1) [OF assms] obtain dp nm stats d'
    where "r = iconRecord dp nm stats d'" by blast
  then show ?thesis by (simp add: iconRecord_fields startsWith_def)
qed

lemma getAllFilesRecursively_records:
  "r \<in> set (getAllFilesRecursively readdir dirPath currentDepth maxDepth) \<Longrightarrow>
   \<exists>dirs nm stats. r = fileRecord (dirPath @ dirs) nm stats (currentDepth + int (length dirs))
      \<and> list_all (\<lambda>x. \<not> skippedDirectory x) dirs
      \<and> currentDepth + int (length dirs) \<le> maxDepth"
  "r \<in> set (getAllFilesRecursively_loop entries dirPath currentDepth maxDepth) \<Longrightarrow>
   currentDepth \<le> maxDepth \<Longrightarrow>
   \<exists>dirs nm stats. r = fileRecord (dirPath @ dirs) nm stats (currentDepth + int (length dirs))
      \<and> list_all (\<lambda>x. \<not> skippedDirectory x) dirs
      \<and> currentDepth + int (length dirs) \<le> maxDepth"
proof (induction readdir dirPath currentDepth maxDepth and entries dirPath currentDepth maxDepth
       rule: getAllFilesRecursively_getAllFilesRecursively_loop.induct)
  case (1 readdir dirPath currentDepth maxDepth)
  show ?case
  proof (cases "currentDepth > maxDepth")
    case True
    with "1.prems" show ?thesis by simp
  next
    case False
    with "1.prems" obtain entries where "readdir = Some entries"
      and "r \<in> set (getAllFilesRecursively_loop entries dirPath currentDepth maxDepth)"
      by (cases readdir) auto
    with False show ?thesis by (intro "1.IH") auto
  qed
next
  case (2 dirPath currentDepth maxDepth)
  then show ?case by simp
next
  case (3 entryName sub entries dirPath currentDepth maxDepth)
  from "3.prems"(1) consider
      (sub) "\<not> (startsWith entryName ''.'' \<or> entryName = ''node_modules'')"
        "r \<in> set (getAllFilesRecursively sub (dirPath @ [entryName]) (currentDepth + 1) maxDepth)"
    | (rest) "r \<in> set (getAllFilesRecursively_loop entries dirPath currentDepth maxDepth)"
    by (cases "startsWith entryName ''.'' \<or> entryName = ''node_modules''") auto
  then show ?case
  proof cases
    case sub
    from "3.IH"(1) [OF sub] obtain dirs nm stats where
      r: "r = fileRecord ((dirPath @ [entryName]) @ dirs) nm stats (currentDepth + 1 + int (length dirs))"
      and ok: "list_all (\<lambda>x. \<not> skippedDirectory x) dirs"
      and le: "currentDepth + 1 + int (length dirs) \<le> maxDepth"
      by blast
    have "r = fileRecord (dirPath @ (entryName # dirs)) nm stats
                (currentDepth + int (length (entryName # dirs)))"
      using r by (simp add: add.assoc)
    moreover have "list_all (\<lambda>x. \<not> skippedDirectory x) (entryName # dirs)"
      using ok sub(1) by (simp add: skippedDirectory_def)
    moreover have "currentDepth + int (length (entryName # dirs)) \<le> maxDepth"
      using le by simp
    ultimately show ?thesis by blast
  next
    case rest
    then show ?thesis using "3.prems"(2) by (rule "3.IH"(2))
  qed
next
  case (4 entryName st entries dirPath currentDepth maxDepth)
  from "4.prems"(1) have
    "(\<exists>stats. r = fileRecord dirPath entryName stats currentDepth)
     \<or> r \<in> set (getAllFilesRecursively_loop entries dirPath currentDepth maxDepth)"
    by (cases "toLowerCase (path_extname entryName) \<in> set supportedFormats"; cases st) auto
  then show ?case
  proof
    assume "\<exists>stats. r = fileRecord dirPath entryName stats currentDepth"
    then obtain stats where "r = fileRecord (dirPath @ []) entryName stats (currentDepth + int (length ([]::string list)))"
      by auto
    moreover have "list_all (\<lambda>x. \<not> skippedDirectory x) []" by simp
    moreover have "currentDepth + int (length ([]::string list)) \<le> maxDepth"
      using "4.prems"(2) by simp
    ultimately show ?thesis by blast
  next
    assume "r \<in> set (getAllFilesRecursively_loop entries dirPath currentDepth maxDepth)"
    then show ?thesis using "4.prems"(2) by (rule "4.IH")
  qed
next
  case (5 entryName st entries dirPath currentDepth maxDepth)
  from "5.prems" show ?case by (intro "5.IH") auto
qed

lemma getAllFilesRecursively_depth_bounds:
  assumes "r \<in> set (getAllFilesRecursively readdir dirPath currentDepth maxDepth)"
  shows "currentDepth \<le> depth r \<and> depth r \<le> maxDepth"
proof -
  from getAllFilesRecursively_records(1) [OF assms] obtain dirs nm stats where
    "r = fileRecord (dirPath @ dirs) nm stats (currentDepth + int (length dirs))"
    and "currentDepth + int (length dirs) \<le> maxDepth"
    by blast
  then show ?thesis by (simp add: fileRecord_fields)
qed

lemma getAllFilesRecursively_not_below_skipped:
  assumes "r \<in> set (getAllFilesRecursively readdir [] 0 maxDepth)"
  shows "\<exists>dirs nm. relativePath r = replace_backslashes (path_relative_entry dirs nm)
           \<and> list_all (\<lambda>x. \<not> skippedDirectory x) dirs"
proof -
  from getAllFilesRecursively_records(1) [OF assms] obtain dirs nm stats where
    "r = fileRecord ([] @ dirs) nm stats (0 + int (length dirs))"
    and "list_all (\<lambda>x. \<not> skippedDirectory x) dirs"
    by blast
  then show ?thesis by (auto simp: fileRecord_fields)
qed

lemma exact_match_ranks_above_on_indexed_tree:
  assumes q: "trim searchTerm \<noteq> []"
    and xs: "xs = icons (searchIconFiles lc fs searchTerm directory' filterDir)"
    and i: "i < length xs" and j: "j < length xs"
    and exact: "isExactMatch (toLowerCase searchTerm) (xs ! i)"
    and nonexact: "\<not> isExactMatch (toLowerCase searchTerm) (xs ! j)"
  shows "i < j"
proof -
  from i xs obtain readdir where fs: "fs directory' = Some readdir"
    by (cases "fs directory'") (auto simp: searchIconFiles_def)
  define allFiles where "allFiles = getAllFilesRecursively readdir [] 0 10"
  have xs': "xs = Array_sort (compareRelevance lc (toLowerCase searchTerm))
                    (filter (matchesSearch (toLowerCase searchTerm)) (scopedSet allFiles filterDir))"
    using searchIconFiles_accessible [of fs directory' readdir lc searchTerm filterDir] fs xs
    by (simp add: allFiles_def icons_searchRecords_query [OF q])
  then have sub: "set xs \<subseteq> set allFiles"
    using set_scopedSet [of allFiles filterDir] by (auto simp: set_Array_sort)
  have "xs ! i \<in> set allFiles" and "xs ! j \<in> set allFiles"
    using sub i j by (auto dest: nth_mem)
  then have "depth (xs ! i) \<le> 10" and "0 \<le> depth (xs ! j)"
    using getAllFilesRecursively_depth_bounds unfolding allFiles_def by blast+
  then have gap: "depth (xs ! i) < depth (xs ! j) + 75" by simp
  have "sorted_wrt (\<lambda>a b. getRelevanceScore (toLowerCase searchTerm) b
                          \<le> getRelevanceScore (toLowerCase searchTerm) a) xs"
    unfolding xs' by (rule sorted_by_score)
  then show ?thesis using i j exact nonexact gap by (rule exact_first_in_score_order)
qed

text \<open>
  Claim C7. Every record of an indexer has a \<open>path\<close> that begins with the public mount
  prefix. The records of the script do: their path is \<open>/icons/\<close> followed by the relative
  path (lemma \<open>getAllIconFiles_path_prefix\<close>). The walk of \<open>route.ts\<close> replaces a leading
  \<open>public/\<close> of the relative path, but that path is relative to the icons directory and
  does not start so: for a root holding the one file \<open>ec2.svg\<close> the path is \<open>ec2.svg\<close>,
  without any prefix, where the script gives \<open>/icons/ec2.svg\<close>.
\<close>

theorem route_walk_path_has_no_mount_prefix:
  "map path (getAllFilesRecursively (Some rootFileTree) [] 0 10) = [''ec2.svg'']
   \<and> \<not> startsWith ''ec2.svg'' ''/''
   \<and> map_option (map path) (getAllIconFiles (Some rootFileTree) [] 0 10)
       = Some [''/icons/ec2.svg'']"
  by code_simp

text \<open>
  Claim C8, as stated: the depth of a record is the number of separators in its relative
  path minus one. It fails for every file directly under the root: \<open>ec2.svg\<close> has depth
  0 and no separator in its relative path, so the stated value is -1.
\<close>

theorem root_file_depth_is_not_separators_minus_one:
  "map (\<lambda>r. (depth r, separatorCount (relativePath r) - 1))
       (getAllFilesRecursively (Some rootFileTree) [] 0 10) = [(0, - 1)]
   \<and> map_option (map (\<lambda>r. (depth r, separatorCount (relativePath r) - 1)))
       (getAllIconFiles (Some rootFileTree) [] 0 10) = Some [(0, - 1)]"
  by code_simp

text \<open>
  Claim C8, amended: for every tree whose entry names hold neither a slash nor a
  backslash, the depth of every record of either indexer is the number of separators in
  its relative path, which is 0 for a file directly under the root.
\<close>

theorem depth_is_separator_count:
  assumes "list_all plainNames entries"
  shows "(\<forall>r \<in> set (getAllFilesRecursively (Some entries) [] 0 maxDepth).
            depth r = separatorCount (relativePath r))
         \<and> (\<forall>files. getAllIconFiles (Some entries) [] 0 maxDepth = Some files \<longrightarrow>
               (\<forall>r \<in> set files. depth r = separatorCount (relativePath r)))"
proof (intro conjI ballI allI impI)
  fix r
  assume "r \<in> set (getAllFilesRecursively (Some entries) [] 0 maxDepth)"
  with getAllFilesRecursively_depth(1) [of "[]" "Some entries" r 0 maxDepth] assms
  show "depth r = separatorCount (relativePath r)" by simp
next
  fix files r
  assume "getAllIconFiles (Some entries) [] 0 maxDepth = Some files" and "r \<in> set files"
  with getAllIconFiles_depth(1) [of "[]" "Some entries" 0 maxDepth files r] assms
  show "depth r = separatorCount (relativePath r)" by simp
qed

theorem depth_is_separator_count_witness:
  "list_all plainNames nestedTree
   \<and> map relativePath (getAllFilesRecursively (Some nestedTree) [] 0 10)
       = [''ec2.svg'', ''compute/lambda.svg'']
   \<and> list_all (\<lambda>r. depth r = separatorCount (relativePath r))
        (getAllFilesRecursively (Some nestedTree) [] 0 10)"
proof -
  have h: "list_all plainNames nestedTree" by code_simp
  have r: "map relativePath (getAllFilesRecursively (Some nestedTree) [] 0 10)
       = [''ec2.svg'', ''compute/lambda.svg'']"
    by code_simp
  from depth_is_separator_count [OF h, of 10] h r show ?thesis
    unfolding list_all_iff by blast
qed

text \<open>
  Claim C9. No record of an indexer lies under a directory whose name starts with a dot
  or is \<open>node_modules\<close>. The walk of \<open>route.ts\<close> skips such directories (lemma
  \<open>getAllFilesRecursively_not_below_skipped\<close>); the script enters every directory. For a
  root with the directories \<open>.git\<close> and \<open>node_modules\<close> the script records the files in
  them, and the walk of \<open>route.ts\<close> records nothing.
\<close>

theorem script_indexes_skipped_directories:
  "map_option (map (\<lambda>r. (directory r, relativePath r, path r)))
       (getAllIconFiles (Some hiddenDirTree) [] 0 10)
     = Some [(''.git'', ''.git/logo.png'', ''/icons/.git/logo.png''),
             (''node_modules'', ''node_modules/badge.svg'', ''/icons/node_modules/badge.svg'')]
   \<and> getAllFilesRecursively (Some hiddenDirTree) [] 0 10 = []"
  by code_simp

end
